theory Spec2Isabelle
  imports Main "HOL-Library.Char_ord" "HOL-Library.List_Lexorder" "HOL-Library.AList"
begin

section \<open>Python values used by \<open>qlgen.py\<close>\<close>

text \<open>
  A Python \<open>str\<close> is modelled as a \<open>string\<close>, one \<open>char\<close> per code point; the
  model therefore covers text whose code points lie below 256. Exceptions are values
  of the type \<open>error\<close>, and a function that may raise returns \<open>error + 'a\<close>.
\<close>

datatype error =
    KeyError string
  | IndexError
  | RecursionError
  | FileNotFoundError
  | ValueError
  | ModifiedStubMarkedAsGeneratedError string

type_synonym path = "string list"

definition path_name :: "path \<Rightarrow> string" where
  \<comment> \<open>\<open>file.name\<close>: the final path component, empty for the empty path\<close>
  "path_name p = (if p = [] then [] else last p)"

definition nl :: char where
  "nl = CHR 0x0A"

definition startswith :: "string \<Rightarrow> string \<Rightarrow> bool" where
  "startswith s p = (take (length p) s = p)"

fun readlines :: "string \<Rightarrow> string list" where
  \<comment> \<open>iterating over a text file: the lines, each keeping its newline\<close>
  "readlines [] = []"
| "readlines (c # cs) =
     (if c = nl then [c] # readlines cs
      else (case readlines cs of [] \<Rightarrow> [[c]] | l # ls \<Rightarrow> (c # l) # ls))"

section \<open>The stub guard\<close>

subsection \<open>The regular expression \<open>_generated_stub_re\<close>\<close>

text \<open>
  The pattern is a sequence of atoms: a literal character, one character of a class,
  and a class repeated (\<open>*\<close>, \<open>+\<close>). \<open>re_match\<close> is \<open>Pattern.match\<close>: it says
  whether some prefix of the text matches, trying every length of a repetition, as
  the backtracking matcher does.
\<close>

datatype atom = Lit char | OneOf "char \<Rightarrow> bool" | Star "char \<Rightarrow> bool" | Plus "char \<Rightarrow> bool"

function re_match :: "atom list \<Rightarrow> string \<Rightarrow> bool" where
  "re_match [] s = True"
| "re_match (Lit c # r) s = (case s of [] \<Rightarrow> False | x # xs \<Rightarrow> x = c \<and> re_match r xs)"
| "re_match (OneOf P # r) s = (case s of [] \<Rightarrow> False | x # xs \<Rightarrow> P x \<and> re_match r xs)"
| "re_match (Star P # r) s =
     ((case s of [] \<Rightarrow> False | x # xs \<Rightarrow> P x \<and> re_match (Star P # r) xs) \<or> re_match r s)"
| "re_match (Plus P # r) s = (case s of [] \<Rightarrow> False | x # xs \<Rightarrow> P x \<and> re_match (Star P # r) xs)"
  by pat_completeness auto
termination
  by (relation "measure (\<lambda>(r, s). 2 * length s + length r)") auto

definition literal :: "string \<Rightarrow> atom list" where
  "literal s = map Lit s"

definition dot :: "char \<Rightarrow> bool" where
  \<comment> \<open>\<open>.\<close> without \<open>DOTALL\<close>: any character but the newline\<close>
  "dot c = (c \<noteq> nl)"

definition isalnum :: "char \<Rightarrow> bool" where
  \<comment> \<open>\<open>str.isalnum\<close> on code points below 256\<close>
  "isalnum c =
     (let n = (of_char c :: nat) in
        (48 \<le> n \<and> n \<le> 57) \<or> (65 \<le> n \<and> n \<le> 90) \<or> (97 \<le> n \<and> n \<le> 122)
        \<or> n = 170 \<or> n = 178 \<or> n = 179 \<or> n = 181 \<or> n = 185 \<or> n = 186
        \<or> (188 \<le> n \<and> n \<le> 190)
        \<or> (192 \<le> n \<and> n \<le> 214) \<or> (216 \<le> n \<and> n \<le> 246) \<or> 248 \<le> n)"

definition word_char :: "char \<Rightarrow> bool" where
  \<comment> \<open>\<open>\w\<close> on a \<open>str\<close> pattern: alphanumeric or the underscore\<close>
  "word_char c = (isalnum c \<or> c = CHR ''_'')"

definition generated_stub_re :: "atom list" where
  \<comment> \<open>\<open>private import .*\n\nclass \w+ extends \w+ \{[ \n]\}\<close>\<close>
  "generated_stub_re =
     literal ''private import '' @ [Star dot] @ literal [nl, nl] @ literal ''class ''
     @ [Plus word_char] @ literal '' extends '' @ [Plus word_char] @ literal '' {''
     @ [OneOf (\<lambda>c. c = CHR '' '' \<or> c = nl)] @ literal ''}''"

subsection \<open>\<open>_is_generated_stub\<close>\<close>

definition line_threshold :: nat where
  "line_threshold = 5"

definition modified_error :: "string \<Rightarrow> error" where
  \<comment> \<open>the exception raised for a stub that is marked as generated and was edited\<close>
  "modified_error fname =
     ModifiedStubMarkedAsGeneratedError
       (fname @ '' stub was modified but is still marked as generated'')"

definition check_stub_contents :: "string \<Rightarrow> string \<Rightarrow> error + bool" where
  \<comment> \<open>the body of \<open>with open(file) as contents\<close>, on the text of the file\<close>
  "check_stub_contents fname contents =
     (case readlines contents of
        [] \<Rightarrow> Inr False
      | line # rest \<Rightarrow>
          if \<not> startswith line ''// generated'' then Inr False
          else
            let first_lines = take line_threshold rest in
            if length first_lines = line_threshold
               \<or> \<not> re_match generated_stub_re (concat first_lines)
            then Inl (modified_error fname)
            else Inr True)"

definition is_generated_stub :: "(path \<rightharpoonup> string) \<Rightarrow> path \<Rightarrow> error + bool" where
  "is_generated_stub fs file =
     (case fs file of
        None \<Rightarrow> Inl FileNotFoundError
      | Some contents \<Rightarrow> check_stub_contents (path_name file) contents)"

section \<open>The schema model and the relational mapper\<close>

text \<open>
  Python objects have an identity, which \<open>is\<close> compares and \<open>id\<close> returns. An
  object is modelled as a pair of its identity and its value.
\<close>

type_synonym 'a obj = "nat \<times> 'a"

definition ident :: "'a obj \<Rightarrow> nat" where
  "ident p = fst p"

definition val :: "'a obj \<Rightarrow> 'a" where
  "val p = snd p"

record schema_property =
  prop_name :: string
  prop_type :: string
  prop_is_child :: bool
  prop_pragmas :: "string list"
  prop_is_single :: bool
  prop_is_optional :: bool
  prop_is_repeated :: bool
  prop_is_predicate :: bool

record schema_class =
  cls_name :: string
  cls_properties :: "schema_property obj list"

record ql_property =
  qlp_type :: string
  qlp_qltest_skip :: bool
  qlp_is_child :: bool
  qlp_is_optional :: bool
  qlp_is_predicate :: bool
  qlp_singular :: string
  qlp_plural :: "string option"
  qlp_tablename :: string
  qlp_tableparams :: "string list"

text \<open>
  The naming transforms come from the third-party package \<open>inflection\<close>; the mapper
  takes them as a parameter. \<open>camelize_lower\<close> is \<open>camelize\<close> called with
  \<open>uppercase_first_letter=False\<close>.
\<close>

record inflection =
  camelize :: "string \<Rightarrow> string"
  camelize_lower :: "string \<Rightarrow> string"
  singularize :: "string \<Rightarrow> string"
  pluralize :: "string \<Rightarrow> string"
  tableize :: "string \<Rightarrow> string"
  underscore :: "string \<Rightarrow> string"

definition common_args :: "schema_property \<Rightarrow> ql_property" where
  \<comment> \<open>the keyword arguments shared by every branch; the naming fields are set by the branch\<close>
  "common_args prop =
     \<lparr> qlp_type = (if \<not> prop_is_predicate prop then prop_type prop else ''predicate''),
       qlp_qltest_skip = (''qltest_skip'' \<in> set (prop_pragmas prop)),
       qlp_is_child = prop_is_child prop,
       qlp_is_optional = prop_is_optional prop,
       qlp_is_predicate = prop_is_predicate prop,
       qlp_singular = [],
       qlp_plural = None,
       qlp_tablename = [],
       qlp_tableparams = [] \<rparr>"

definition get_ql_property ::
  "inflection \<Rightarrow> schema_class \<Rightarrow> schema_property obj \<Rightarrow> ql_property option" where
  \<comment> \<open>\<open>None\<close> is what the function returns when no branch is taken\<close>
  "get_ql_property infl cls prop =
     (if prop_is_single (val prop) then
        Some ((common_args (val prop))
          \<lparr> qlp_singular := camelize infl (prop_name (val prop)),
            qlp_tablename := tableize infl (cls_name cls),
            qlp_tableparams :=
              ''this'' # map (\<lambda>p. if ident p = ident prop then ''result'' else ''_'')
                           (filter (\<lambda>p. prop_is_single (val p)) (cls_properties cls)) \<rparr>)
      else if prop_is_repeated (val prop) then
        Some ((common_args (val prop))
          \<lparr> qlp_singular := singularize infl (camelize infl (prop_name (val prop))),
            qlp_plural := Some (pluralize infl (camelize infl (prop_name (val prop)))),
            qlp_tablename := tableize infl (cls_name cls @ ''_'' @ prop_name (val prop)),
            qlp_tableparams := [''this'', ''index'', ''result''] \<rparr>)
      else if prop_is_optional (val prop) then
        Some ((common_args (val prop))
          \<lparr> qlp_singular := camelize infl (prop_name (val prop)),
            qlp_tablename := tableize infl (cls_name cls @ ''_'' @ prop_name (val prop)),
            qlp_tableparams := [''this'', ''result''] \<rparr>)
      else if prop_is_predicate (val prop) then
        Some ((common_args (val prop))
          \<lparr> qlp_singular := camelize_lower infl (prop_name (val prop)),
            qlp_tablename := underscore infl (cls_name cls @ ''_'' @ prop_name (val prop)),
            qlp_tableparams := [''this''] \<rparr>)
      else None)"

text \<open>
  A small instance of the naming transforms, for evaluating the mapper on concrete
  schemas. It agrees with \<open>inflection\<close> on the plain ASCII names used in the examples
  below, which have a regular plural and no inner capital letter.
\<close>

definition lower_char :: "char \<Rightarrow> char" where
  "lower_char c =
     (case map_of (zip ''ABCDEFGHIJKLMNOPQRSTUVWXYZ'' ''abcdefghijklmnopqrstuvwxyz'') c of
        None \<Rightarrow> c | Some l \<Rightarrow> l)"

definition upper_char :: "char \<Rightarrow> char" where
  "upper_char c =
     (case map_of (zip ''abcdefghijklmnopqrstuvwxyz'' ''ABCDEFGHIJKLMNOPQRSTUVWXYZ'') c of
        None \<Rightarrow> c | Some u \<Rightarrow> u)"

definition plural_s :: "string \<Rightarrow> string" where
  "plural_s w = (if w \<noteq> [] \<and> last w = CHR ''s'' then w else w @ ''s'')"

definition singular_s :: "string \<Rightarrow> string" where
  "singular_s w = (if w \<noteq> [] \<and> last w = CHR ''s'' then butlast w else w)"

definition plain_inflection :: inflection where
  "plain_inflection =
     \<lparr> camelize = (\<lambda>w. case w of [] \<Rightarrow> [] | c # cs \<Rightarrow> upper_char c # cs),
       camelize_lower = (\<lambda>w. case w of [] \<Rightarrow> [] | c # cs \<Rightarrow> lower_char c # cs),
       singularize = singular_s,
       pluralize = plural_s,
       tableize = (\<lambda>w. plural_s (map lower_char w)),
       underscore = map lower_char \<rparr>"

section \<open>The import resolver\<close>

record ql_class =
  qlc_name :: string
  qlc_bases :: "string list"
  qlc_final :: bool
  qlc_properties :: "ql_property obj list"
  qlc_path :: path
  qlc_imports :: "string list"
  qltest_skip :: bool
  qltest_collapse_hierarchy :: bool
  qltest_uncollapse_hierarchy :: bool

definition get_types_used_by :: "ql_class \<Rightarrow> string list" where
  "get_types_used_by cls = qlc_bases cls @ map (\<lambda>p. qlp_type (val p)) (qlc_properties cls)"

definition isupper :: "char \<Rightarrow> bool" where
  \<comment> \<open>\<open>str.isupper\<close> of a one-character string, on code points below 256\<close>
  "isupper c =
     (let n = (of_char c :: nat) in
        (65 \<le> n \<and> n \<le> 90) \<or> (192 \<le> n \<and> n \<le> 214) \<or> (216 \<le> n \<and> n \<le> 222))"

fun class_references :: "string list \<Rightarrow> error + string list" where
  \<comment> \<open>\<open>t for t in ... if t[0].isupper()\<close>; \<open>t[0]\<close> raises on the empty string\<close>
  "class_references [] = Inr []"
| "class_references (t # ts) =
     (case t of
        [] \<Rightarrow> Inl IndexError
      | c # _ \<Rightarrow>
          (case class_references ts of
             Inl e \<Rightarrow> Inl e
           | Inr r \<Rightarrow> Inr (if isupper c then t # r else r)))"

definition get_classes_used_by :: "ql_class \<Rightarrow> error + string list" where
  "get_classes_used_by cls =
     (case class_references (get_types_used_by cls) of
        Inl e \<Rightarrow> Inl e
      | Inr r \<Rightarrow> Inr (sort (remdups r)))"

section \<open>The hierarchy analyzer\<close>

text \<open>
  The walks over the inheritance graph recurse through the lookup table. The first
  argument of each function is the number of nested calls the interpreter still allows;
  when it is used up the call raises \<open>RecursionError\<close>, as it does on a cyclic graph.
  \<open>lookup[b]\<close> raises \<open>KeyError\<close> for a base that is not in the table.
\<close>

type_synonym lookup = "string \<rightharpoonup> ql_class"

type_synonym prop_item = "ql_class \<times> ql_property obj"


fun deduplicate :: "nat set \<Rightarrow> prop_item list \<Rightarrow> prop_item list" where
  \<comment> \<open>the loop of \<open>_get_all_properties_to_be_tested\<close>; the set is \<open>already_seen\<close>\<close>
  "deduplicate already_seen [] = []"
| "deduplicate already_seen ((c, p) # items) =
     (if \<not> (qltest_skip c \<or> qlp_qltest_skip (val p) \<or> ident p \<in> already_seen)
      then (c, p) # deduplicate (insert (ident p) already_seen) items
      else deduplicate already_seen items)"



fun is_in_qltest_collapsed_hierachy :: "nat \<Rightarrow> ql_class \<Rightarrow> lookup \<Rightarrow> error + bool"
  and is_under_qltest_collapsed_hierachy :: "nat \<Rightarrow> ql_class \<Rightarrow> lookup \<Rightarrow> error + bool"
  and any_base_collapsed :: "nat \<Rightarrow> string list \<Rightarrow> lookup \<Rightarrow> error + bool"
where
  "is_in_qltest_collapsed_hierachy 0 cls lookup = Inl RecursionError"
| "is_in_qltest_collapsed_hierachy (Suc n) cls lookup =
     (if qltest_collapse_hierarchy cls then Inr True
      else is_under_qltest_collapsed_hierachy n cls lookup)"
| "is_under_qltest_collapsed_hierachy 0 cls lookup = Inl RecursionError"
| "is_under_qltest_collapsed_hierachy (Suc n) cls lookup =
     (if qltest_uncollapse_hierarchy cls then Inr False
      else any_base_collapsed n (qlc_bases cls) lookup)"
| "any_base_collapsed n [] lookup = Inr False"
| "any_base_collapsed n (b # bs) lookup =
     (case lookup b of
        None \<Rightarrow> Inl (KeyError b)
      | Some base \<Rightarrow>
          (case is_in_qltest_collapsed_hierachy n base lookup of
             Inl e \<Rightarrow> Inl e
           | Inr True \<Rightarrow> Inr True
           | Inr False \<Rightarrow> any_base_collapsed n bs lookup))"


section \<open>The generation driver\<close>

subsection \<open>Paths\<close>

text \<open>
  A \<open>pathlib.Path\<close> is the list of its components; \<open>a / b\<close> with a relative \<open>b\<close> is
  \<open>a @ b\<close>.
\<close>

definition endswith :: "string \<Rightarrow> string \<Rightarrow> bool" where
  "endswith s x = (length x \<le> length s \<and> drop (length s - length x) s = x)"

definition suffix_of :: "string \<Rightarrow> string" where
  \<comment> \<open>\<open>Path.suffix\<close>: from the last dot of the name, unless it is the first or last character\<close>
  "suffix_of fname =
     (let after = rev (takeWhile (\<lambda>c. c \<noteq> CHR ''.'') (rev fname)) in
      if CHR ''.'' \<in> set fname \<and> after \<noteq> [] \<and> length after + 1 < length fname
      then CHR ''.'' # after else [])"

definition with_suffix :: "string \<Rightarrow> path \<Rightarrow> error + path" where
  \<comment> \<open>\<open>Path.with_suffix\<close>, called with the suffixes \<open>.qll\<close> and the empty string only\<close>
  "with_suffix sfx p =
     (if path_name p = [] then Inl ValueError
      else Inr (butlast p
                @ [take (length (last p) - length (suffix_of (last p))) (last p) @ sfx]))"

definition relative_to :: "path \<Rightarrow> path \<Rightarrow> error + path" where
  "relative_to p other =
     (if take (length other) p = other then Inr (drop (length other) p) else Inl ValueError)"

fun str_path :: "path \<Rightarrow> string" where
  \<comment> \<open>\<open>str\<close> of a relative path\<close>
  "str_path [] = ''.''"
| "str_path [x] = x"
| "str_path (x # xs) = x @ ''/'' @ str_path xs"

definition get_import :: "path \<Rightarrow> path \<Rightarrow> error + string" where
  "get_import file swift_dir =
     (case relative_to file (swift_dir @ [''ql'', ''lib'']) of
        Inl e \<Rightarrow> Inl e
      | Inr rel \<Rightarrow>
          (case with_suffix [] rel of
             Inl e \<Rightarrow> Inl e
           | Inr stem \<Rightarrow>
               Inr (map (\<lambda>c. if c = CHR ''/'' then CHR ''.'' else c) (str_path stem))))"

subsection \<open>The file system and the renderer\<close>

record opts =
  ql_output :: path
  ql_stub_output :: path
  ql_test_output :: path
  swift_dir :: path

datatype item = ClassItem ql_class | StubItem string string

record world =
  files :: "(path \<times> string) list"
  rendered :: "(item \<times> path) list"

definition is_file :: "(path \<times> string) list \<Rightarrow> path \<Rightarrow> bool" where
  "is_file fs p = (map_of fs p \<noteq> None)"

definition is_below :: "path \<Rightarrow> path \<Rightarrow> bool" where
  \<comment> \<open>\<open>p\<close> lies in the directory \<open>dir\<close> or in one of its subdirectories\<close>
  "is_below dir p = (length dir < length p \<and> take (length dir) p = dir)"

definition rglob :: "path \<Rightarrow> (string \<Rightarrow> bool) \<Rightarrow> (path \<times> string) list \<Rightarrow> path list" where
  \<comment> \<open>the files below \<open>dir\<close> whose name matches the pattern\<close>
  "rglob dir pat fs = filter (\<lambda>p. is_below dir p \<and> pat (path_name p)) (map fst fs)"

definition world_after :: "error \<times> world + world \<Rightarrow> world" where
  \<comment> \<open>the file system and the renderer when the run has returned or raised\<close>
  "world_after r = (case r of Inl (e, w) \<Rightarrow> w | Inr w \<Rightarrow> w)"

definition render :: "(item \<Rightarrow> string) \<Rightarrow> item \<Rightarrow> path \<Rightarrow> world \<Rightarrow> world" where
  \<comment> \<open>Modelled from the spec: the renderer (\<open>render.py\<close> is not among the sources) accepts a
      record and a destination path, produces the text of the artifact there, and tracks
      every path it has written. The template that produces the text is the parameter
      \<open>tmpl\<close>.\<close>
  "render tmpl data output w =
     w\<lparr> files := AList.update output (tmpl data) (files w),
        rendered := rendered w @ [(data, output)] \<rparr>"

subsection \<open>\<open>generate\<close>: the files that exist before the run\<close>

fun generated_stubs :: "(path \<times> string) list \<Rightarrow> path list \<Rightarrow> error + path list" where
  \<comment> \<open>\<open>q for q in ... if _is_generated_stub(q)\<close>\<close>
  "generated_stubs fs [] = Inr []"
| "generated_stubs fs (q # qs) =
     (case is_generated_stub (map_of fs) q of
        Inl e \<Rightarrow> Inl e
      | Inr b \<Rightarrow>
          (case generated_stubs fs qs of
             Inl e \<Rightarrow> Inl e
           | Inr r \<Rightarrow> Inr (if b then q # r else r)))"

definition existing :: "opts \<Rightarrow> (path \<times> string) list \<Rightarrow> error + path set" where
  "existing opt fs =
     (case generated_stubs fs (rglob (ql_stub_output opt) (\<lambda>n. endswith n ''.qll'') fs) of
        Inl e \<Rightarrow> Inl e
      | Inr stubs \<Rightarrow>
          Inr (set (rglob (ql_output opt) (\<lambda>n. endswith n ''.qll'') fs)
               \<union> set stubs
               \<union> set (rglob (ql_test_output opt) (\<lambda>n. endswith n ''.ql'') fs)
               \<union> set (rglob (ql_test_output opt) (\<lambda>n. n = ''MISSING_SOURCE.txt'') fs)))"

subsection \<open>\<open>generate\<close>: imports, definitions and stubs\<close>

fun build_imports ::
  "opts \<Rightarrow> ql_class list \<Rightarrow> (string \<rightharpoonup> string) \<Rightarrow> error + (string \<rightharpoonup> string)" where
  \<comment> \<open>\<open>for c in classes: imports[c.name] = get_import(stub_out / c.path, opts.swift_dir)\<close>\<close>
  "build_imports opt [] imports = Inr imports"
| "build_imports opt (c # cs) imports =
     (case get_import (ql_stub_output opt @ qlc_path c) (swift_dir opt) of
        Inl e \<Rightarrow> Inl e
      | Inr i \<Rightarrow> build_imports opt cs (imports(qlc_name c \<mapsto> i)))"

fun resolve_imports :: "(string \<rightharpoonup> string) \<Rightarrow> string list \<Rightarrow> error + string list" where
  \<comment> \<open>\<open>[imports[t] for t in ...]\<close>\<close>
  "resolve_imports imports [] = Inr []"
| "resolve_imports imports (t # ts) =
     (case imports t of
        None \<Rightarrow> Inl (KeyError t)
      | Some i \<Rightarrow>
          (case resolve_imports imports ts of
             Inl e \<Rightarrow> Inl e
           | Inr r \<Rightarrow> Inr (i # r)))"

definition render_stub ::
  "(item \<Rightarrow> string) \<Rightarrow> opts \<Rightarrow> ql_class \<Rightarrow> path \<Rightarrow> path \<Rightarrow> world \<Rightarrow> error \<times> world + world" where
  "render_stub tmpl opt c qll stub_file w =
     (case get_import qll (swift_dir opt) of
        Inl e \<Rightarrow> Inl (e, w)
      | Inr base_import \<Rightarrow> Inr (render tmpl (StubItem (qlc_name c) base_import) stub_file w))"

definition render_class ::
  "(item \<Rightarrow> string) \<Rightarrow> opts \<Rightarrow> (string \<rightharpoonup> string) \<Rightarrow> ql_class \<Rightarrow> world
     \<Rightarrow> error \<times> world + world" where
  \<comment> \<open>the body of the second \<open>for c in classes\<close>; an exception is returned together with
      the world it leaves behind\<close>
  "render_class tmpl opt imports c w =
     (case with_suffix ''.qll'' (qlc_path c) of
        Inl e \<Rightarrow> Inl (e, w)
      | Inr rel \<Rightarrow>
          let qll = ql_output opt @ rel in
          (case get_classes_used_by c of
             Inl e \<Rightarrow> Inl (e, w)
           | Inr ts \<Rightarrow>
               (case resolve_imports imports ts of
                  Inl e \<Rightarrow> Inl (e, w)
                | Inr imps \<Rightarrow>
                    let c' = c\<lparr>qlc_imports := imps\<rparr>;
                        w1 = render tmpl (ClassItem c') qll w;
                        stub_file = ql_stub_output opt @ rel
                    in
                      if \<not> is_file (files w1) stub_file then render_stub tmpl opt c' qll stub_file w1
                      else
                        (case is_generated_stub (map_of (files w1)) stub_file of
                           Inl e \<Rightarrow> Inl (e, w1)
                         | Inr True \<Rightarrow> render_stub tmpl opt c' qll stub_file w1
                         | Inr False \<Rightarrow> Inr w1))))"

fun render_classes ::
  "(item \<Rightarrow> string) \<Rightarrow> opts \<Rightarrow> (string \<rightharpoonup> string) \<Rightarrow> ql_class list \<Rightarrow> world
     \<Rightarrow> error \<times> world + world" where
  "render_classes tmpl opt imports [] w = Inr w"
| "render_classes tmpl opt imports (c # cs) w =
     (case render_class tmpl opt imports c w of
        Inl ew \<Rightarrow> Inl ew
      | Inr w' \<Rightarrow> render_classes tmpl opt imports cs w')"

section \<open>Predicates of the specification\<close>

text \<open>
  The structural pattern of a pristine stub as the specification words it: an import
  statement, a blank line, and an empty class declaration extending one base. The text
  may go on after the closing brace, since the pattern is matched at the start only.
\<close>

definition stub_pattern :: "string \<Rightarrow> bool" where
  "stub_pattern s =
     (\<exists>imp cls base sep rest.
        s = ''private import '' @ imp @ [nl, nl] @ ''class '' @ cls @ '' extends '' @ base
            @ '' {'' @ [sep] @ ''}'' @ rest
        \<and> nl \<notin> set imp
        \<and> cls \<noteq> [] \<and> list_all word_char cls
        \<and> base \<noteq> [] \<and> list_all word_char base
        \<and> (sep = CHR '' '' \<or> sep = nl))"

section \<open>Example schemas\<close>

text \<open>
  The class \<open>Leaf\<close> of the end-to-end scenarios, with the single properties \<open>name\<close> and
  \<open>size\<close> and the repeated property \<open>items\<close>.
\<close>

definition name_prop :: schema_property where
  "name_prop = \<lparr> prop_name = ''name'', prop_type = ''string'', prop_is_child = False,
       prop_pragmas = [], prop_is_single = True, prop_is_optional = False,
       prop_is_repeated = False, prop_is_predicate = False \<rparr>"

definition size_prop :: schema_property where
  "size_prop = \<lparr> prop_name = ''size'', prop_type = ''int'', prop_is_child = False,
       prop_pragmas = [], prop_is_single = True, prop_is_optional = False,
       prop_is_repeated = False, prop_is_predicate = False \<rparr>"

definition items_prop :: schema_property where
  "items_prop = \<lparr> prop_name = ''items'', prop_type = ''Item'', prop_is_child = False,
       prop_pragmas = [], prop_is_single = False, prop_is_optional = False,
       prop_is_repeated = True, prop_is_predicate = False \<rparr>"

definition leaf :: schema_class where
  "leaf = \<lparr> cls_name = ''Leaf'',
            cls_properties = [(0, name_prop), (1, items_prop), (2, size_prop)] \<rparr>"

text \<open>
  Mapped classes and properties built with the defaults of their constructors: no pragma
  flag set, no imports yet.
\<close>

definition ql_class_of :: "string \<Rightarrow> string list \<Rightarrow> bool \<Rightarrow> ql_property obj list \<Rightarrow> ql_class" where
  "ql_class_of n bs fin props =
     \<lparr> qlc_name = n, qlc_bases = bs, qlc_final = fin, qlc_properties = props,
       qlc_path = [n], qlc_imports = [], qltest_skip = False,
       qltest_collapse_hierarchy = False, qltest_uncollapse_hierarchy = False \<rparr>"

definition ql_property_of :: "string \<Rightarrow> string \<Rightarrow> ql_property" where
  "ql_property_of n t =
     \<lparr> qlp_type = t, qlp_qltest_skip = False, qlp_is_child = False, qlp_is_optional = False,
       qlp_is_predicate = False, qlp_singular = n, qlp_plural = None, qlp_tablename = [],
       qlp_tableparams = [] \<rparr>"

definition leaf_ql :: ql_class where
  "leaf_ql = ql_class_of ''Leaf'' [''Base'']  True
     [(0, ql_property_of ''Name'' ''string''), (1, ql_property_of ''Item'' ''Item''),
      (2, ql_property_of ''Parent'' ''Base'')]"

section \<open>The inheritance graph in the words of the specification\<close>

text \<open>
  A class is under a collapsed hierarchy iff it carries no uncollapse override and one of
  its bases is collapsed; a class is collapsed iff it carries the collapse pragma or is
  under a collapsed hierarchy.
\<close>

inductive spec_is_under_collapsed :: "lookup \<Rightarrow> ql_class \<Rightarrow> bool" for lookup where
  "\<not> qltest_uncollapse_hierarchy c \<Longrightarrow> b \<in> set (qlc_bases c) \<Longrightarrow> lookup b = Some base \<Longrightarrow>
   qltest_collapse_hierarchy base \<or> spec_is_under_collapsed lookup base \<Longrightarrow>
   spec_is_under_collapsed lookup c"

definition spec_is_collapsed :: "lookup \<Rightarrow> ql_class \<Rightarrow> bool" where
  "spec_is_collapsed lookup c =
     (qltest_collapse_hierarchy c \<or> spec_is_under_collapsed lookup c)"

text \<open>
  The inheritance graph is acyclic and closed: every base of a class of the table is in
  the table, and a rank decreases from each class to its bases.
\<close>

definition bases_ranked :: "(ql_class \<Rightarrow> nat) \<Rightarrow> lookup \<Rightarrow> ql_class \<Rightarrow> bool" where
  "bases_ranked rank lookup c =
     (\<forall>b \<in> set (qlc_bases c). \<exists>base. lookup b = Some base \<and> rank base < rank c)"

definition valid_hierarchy :: "(ql_class \<Rightarrow> nat) \<Rightarrow> lookup \<Rightarrow> bool" where
  "valid_hierarchy rank lookup = (\<forall>n c. lookup n = Some c \<longrightarrow> bases_ranked rank lookup c)"

text \<open>
  \<open>d\<close> derives from \<open>base\<close>, directly or through other classes, and neither \<open>d\<close> nor a
  class on the way carries the uncollapse override.
\<close>

inductive derives_without_override :: "lookup \<Rightarrow> ql_class \<Rightarrow> ql_class \<Rightarrow> bool" for lookup where
  direct: "\<not> qltest_uncollapse_hierarchy d \<Longrightarrow> b \<in> set (qlc_bases d) \<Longrightarrow> lookup b = Some base \<Longrightarrow>
     derives_without_override lookup d base"
| step: "\<not> qltest_uncollapse_hierarchy d \<Longrightarrow> b \<in> set (qlc_bases d) \<Longrightarrow> lookup b = Some mid \<Longrightarrow>
     derives_without_override lookup mid base \<Longrightarrow> derives_without_override lookup d base"


section \<open>Example hierarchies\<close>

text \<open>A rank given by a table from class names to numbers.\<close>

definition rank_of :: "(string \<times> nat) list \<Rightarrow> ql_class \<Rightarrow> nat" where
  "rank_of table c = (case map_of table (qlc_name c) of None \<Rightarrow> 0 | Some r \<Rightarrow> r)"






text \<open>
  A collapsed class \<open>A\<close>, a class \<open>M(A)\<close> with the uncollapse override, and the classes
  \<open>D(M)\<close> and \<open>E(A)\<close> without pragmas.
\<close>

definition collapsed_a :: ql_class where
  "collapsed_a = (ql_class_of ''A'' [] False []) \<lparr> qltest_collapse_hierarchy := True \<rparr>"

definition uncollapsed_m :: ql_class where
  "uncollapsed_m = (ql_class_of ''M'' [''A''] False []) \<lparr> qltest_uncollapse_hierarchy := True \<rparr>"

definition derived_d :: ql_class where
  "derived_d = ql_class_of ''D'' [''M''] True []"

definition derived_e :: ql_class where
  "derived_e = ql_class_of ''E'' [''A''] True []"

definition collapse_lookup :: lookup where
  "collapse_lookup =
     map_of [(''A'', collapsed_a), (''M'', uncollapsed_m), (''D'', derived_d),
             (''E'', derived_e)]"

definition collapse_rank :: "ql_class \<Rightarrow> nat" where
  "collapse_rank = rank_of [(''A'', 0), (''M'', 1), (''D'', 2), (''E'', 1)]"









section \<open>Example runs of the driver\<close>

text \<open>
  The directories of the Swift library, an import table that lacks the class \<open>Item\<close>
  and one that has every class, a template that writes the marker line only, and a file
  system whose only file is an empty stub for \<open>Leaf\<close>.
\<close>

definition example_opts :: opts where
  "example_opts =
     \<lparr> ql_output = [''swift'', ''ql'', ''lib'', ''codeql'', ''swift'', ''generated''],
       ql_stub_output = [''swift'', ''ql'', ''lib'', ''codeql'', ''swift'', ''elements''],
       ql_test_output = [''swift'', ''ql'', ''test'', ''extractor-tests'', ''generated''],
       swift_dir = [''swift''] \<rparr>"

definition empty_world :: world where
  "empty_world = \<lparr> files = [], rendered = [] \<rparr>"

definition base_only_imports :: "string \<rightharpoonup> string" where
  "base_only_imports = map_of [(''Base'', ''codeql.swift.elements.Base'')]"

definition all_imports :: "string \<rightharpoonup> string" where
  "all_imports = map_of [(''Base'', ''codeql.swift.elements.Base''),
     (''Item'', ''codeql.swift.elements.Item''), (''Leaf'', ''codeql.swift.elements.Leaf'')]"

definition blank_template :: "item \<Rightarrow> string" where
  "blank_template data = ''// generated by codegen''"

definition leaf_stub :: path where
  "leaf_stub = [''swift'', ''ql'', ''lib'', ''codeql'', ''swift'', ''elements'', ''Leaf.qll'']"

definition stub_world :: world where
  "stub_world = \<lparr> files = [(leaf_stub, [])], rendered = [] \<rparr>"

text \<open>
  Between two states of a run, the file at \<open>q\<close> has kept its contents and the renderer
  has not been asked to write it.
\<close>

definition untouched :: "path \<Rightarrow> world \<Rightarrow> world \<Rightarrow> bool" where
  "untouched q w w' =
     (map_of (files w') q = map_of (files w) q
      \<and> filter (\<lambda>(d, p). p = q) (rendered w') = filter (\<lambda>(d, p). p = q) (rendered w))"

section \<open>Properties of the stub guard\<close>

subsection \<open>The regular expression\<close>

lemma re_match_literal:
  "re_match (literal l @ r) s = (\<exists>t. s = l @ t \<and> re_match r t)"
  by (induction l arbitrary: s) (auto simp: literal_def split: list.splits)

lemma re_match_Star:
  "re_match (Star P # r) s = (\<exists>u t. s = u @ t \<and> list_all P u \<and> re_match r t)"
proof (induction s)
  case Nil
  then show ?case by simp
next
  case (Cons x xs)
  show ?case
  proof
    assume "re_match (Star P # r) (x # xs)"
    then consider "P x" "re_match (Star P # r) xs" | "re_match r (x # xs)"
      by auto
    then show "\<exists>u t. x # xs = u @ t \<and> list_all P u \<and> re_match r t"
    proof cases
      case 1
      with Cons obtain u t where "xs = u @ t" "list_all P u" "re_match r t" by auto
      with 1 have "x # xs = (x # u) @ t \<and> list_all P (x # u) \<and> re_match r t" by simp
      then show ?thesis by blast
    next
      case 2
      then have "x # xs = [] @ (x # xs) \<and> list_all P [] \<and> re_match r (x # xs)" by simp
      then show ?thesis by blast
    qed
  next
    assume "\<exists>u t. x # xs = u @ t \<and> list_all P u \<and> re_match r t"
    then obtain u t where ut: "x # xs = u @ t" "list_all P u" "re_match r t" by blast
    show "re_match (Star P # r) (x # xs)"
    proof (cases u)
      case Nil
      with ut show ?thesis by simp
    next
      case (Cons y ys)
      with ut have "P x" "xs = ys @ t" "list_all P ys" by auto
      with ut Cons.IH have "re_match (Star P # r) xs" by blast
      with \<open>P x\<close> show ?thesis by simp
    qed
  qed
qed

lemma re_match_Plus:
  "re_match (Plus P # r) s = (\<exists>u t. s = u @ t \<and> u \<noteq> [] \<and> list_all P u \<and> re_match r t)"
proof
  assume "re_match (Plus P # r) s"
  then obtain x xs where s: "s = x # xs" "P x" "re_match (Star P # r) xs"
    by (cases s) auto
  then obtain u t where "xs = u @ t" "list_all P u" "re_match r t"
    using re_match_Star [of P r xs] by blast
  with s have "s = (x # u) @ t \<and> x # u \<noteq> [] \<and> list_all P (x # u) \<and> re_match r t" by simp
  then show "\<exists>u t. s = u @ t \<and> u \<noteq> [] \<and> list_all P u \<and> re_match r t" by blast
next
  assume "\<exists>u t. s = u @ t \<and> u \<noteq> [] \<and> list_all P u \<and> re_match r t"
  then obtain u t where ut: "s = u @ t" "u \<noteq> []" "list_all P u" "re_match r t" by blast
  then obtain x xs where "u = x # xs" by (cases u) auto
  with ut have "s = x # (xs @ t)" "P x" "list_all P xs" by auto
  moreover from this ut have "re_match (Star P # r) (xs @ t)"
    using re_match_Star [of P r "xs @ t"] by blast
  ultimately have "s = x # (xs @ t)" "P x" "re_match (Star P # r) (xs @ t)" by auto
  then show "re_match (Plus P # r) s" by simp
qed

lemma re_match_OneOf:
  "re_match (OneOf P # r) s = (\<exists>c t. s = c # t \<and> P c \<and> re_match r t)"
  by (cases s) auto

lemma re_match_literal_end: "re_match (literal l) s = (\<exists>t. s = l @ t)"
  using re_match_literal [of l "[]" s] by simp

lemma re_match_Star_app:
  "re_match ([Star P] @ r) s = (\<exists>u t. s = u @ t \<and> list_all P u \<and> re_match r t)"
  using re_match_Star [of P r s] by simp

lemma re_match_Plus_app:
  "re_match ([Plus P] @ r) s = (\<exists>u t. s = u @ t \<and> u \<noteq> [] \<and> list_all P u \<and> re_match r t)"
  using re_match_Plus [of P r s] by simp

lemma re_match_OneOf_app:
  "re_match ([OneOf P] @ r) s = (\<exists>c t. s = c # t \<and> P c \<and> re_match r t)"
  using re_match_OneOf [of P r s] by simp

lemma generated_stub_re_unfold:
  "re_match generated_stub_re s =
     (\<exists>t1. s = ''private import '' @ t1 \<and>
       (\<exists>imp t2. t1 = imp @ t2 \<and> list_all dot imp \<and>
         (\<exists>t3. t2 = [nl, nl] @ t3 \<and>
           (\<exists>t4. t3 = ''class '' @ t4 \<and>
             (\<exists>cls t5. t4 = cls @ t5 \<and> cls \<noteq> [] \<and> list_all word_char cls \<and>
               (\<exists>t6. t5 = '' extends '' @ t6 \<and>
                 (\<exists>base t7. t6 = base @ t7 \<and> base \<noteq> [] \<and> list_all word_char base \<and>
                   (\<exists>t8. t7 = '' {'' @ t8 \<and>
                     (\<exists>sep t9. t8 = sep # t9 \<and> (sep = CHR '' '' \<or> sep = nl) \<and>
                       (\<exists>rest. t9 = ''}'' @ rest))))))))))"
  unfolding generated_stub_re_def
  by (simp only: re_match_literal re_match_literal_end re_match_Star_app re_match_Plus_app
        re_match_OneOf_app)

lemma generated_stub_re_pattern: "re_match generated_stub_re s = stub_pattern s"
proof
  assume "re_match generated_stub_re s"
  then obtain t1 imp t2 t3 t4 cls t5 t6 base t7 t8 sep t9 rest where
    eqs: "s = ''private import '' @ t1" "t1 = imp @ t2" "t2 = [nl, nl] @ t3"
      "t3 = ''class '' @ t4" "t4 = cls @ t5" "t5 = '' extends '' @ t6" "t6 = base @ t7"
      "t7 = '' {'' @ t8" "t8 = sep # t9" "t9 = ''}'' @ rest"
    and props: "list_all dot imp" "cls \<noteq> []" "list_all word_char cls" "base \<noteq> []"
      "list_all word_char base" "sep = CHR '' '' \<or> sep = nl"
    unfolding generated_stub_re_unfold by blast
  have s: "s = ''private import '' @ imp @ [nl, nl] @ ''class '' @ cls @ '' extends '' @ base
            @ '' {'' @ [sep] @ ''}'' @ rest"
    using eqs by simp
  have "nl \<notin> set imp"
    using props(1) by (auto simp: dot_def list_all_iff)
  with s props show "stub_pattern s"
    unfolding stub_pattern_def by blast
next
  assume "stub_pattern s"
  then obtain imp cls base sep rest where
    s: "s = ''private import '' @ imp @ [nl, nl] @ ''class '' @ cls @ '' extends '' @ base
            @ '' {'' @ [sep] @ ''}'' @ rest"
    and props: "nl \<notin> set imp" "cls \<noteq> []" "list_all word_char cls" "base \<noteq> []"
      "list_all word_char base" "sep = CHR '' '' \<or> sep = nl"
    unfolding stub_pattern_def by blast
  have dots: "list_all dot imp"
    using props(1) by (auto simp: dot_def list_all_iff)
  have s': "s = ''private import '' @ (imp @ ([nl, nl] @ (''class '' @ (cls @ ('' extends ''
              @ (base @ ('' {'' @ (sep # (''}'' @ rest)))))))))"
    using s by simp
  show "re_match generated_stub_re s"
    unfolding generated_stub_re_unfold
    apply (rule exI [of _ "imp @ ([nl, nl] @ (''class '' @ (cls @ ('' extends ''
              @ (base @ ('' {'' @ (sep # (''}'' @ rest))))))))"], rule conjI [OF s'])
    apply (rule exI [of _ imp], rule exI, rule conjI [OF refl], rule conjI [OF dots])
    apply (rule exI, rule conjI [OF refl])
    apply (rule exI, rule conjI [OF refl])
    apply (rule exI [of _ cls], rule exI, rule conjI [OF refl], rule conjI [OF props(2)],
           rule conjI [OF props(3)])
    apply (rule exI, rule conjI [OF refl])
    apply (rule exI [of _ base], rule exI, rule conjI [OF refl], rule conjI [OF props(4)],
           rule conjI [OF props(5)])
    apply (rule exI, rule conjI [OF refl])
    apply (rule exI [of _ sep], rule exI, rule conjI [OF refl], rule conjI [OF props(6)])
    apply (rule exI, rule refl)
    done
qed

lemma marker_not_stub_pattern:
  assumes "startswith s ''// generated''"
  shows "\<not> stub_pattern s"
proof
  assume "stub_pattern s"
  then obtain t where "s = CHR ''p'' # t"
    unfolding stub_pattern_def by auto
  with assms show False by (simp add: startswith_def)
qed

subsection \<open>Reading lines\<close>

lemma concat_readlines: "concat (readlines s) = s"
  by (induction s) (auto split: list.splits)

lemma readlines_first_line:
  "nl \<notin> set l \<Longrightarrow> readlines (l @ nl # body) = (l @ [nl]) # readlines body"
  by (induction l) (auto split: list.splits)

lemma startswith_append: "startswith s p \<Longrightarrow> startswith (s @ t) p"
  unfolding startswith_def
  by (metis append_eq_conv_conj append.assoc append_take_drop_id)

lemmas stub_eval = check_stub_contents_def startswith_def line_threshold_def
  generated_stub_re_def literal_def dot_def word_char_def isalnum_def nl_def modified_error_def

subsection \<open>The guard on a file that starts with the marker\<close>

lemma check_stub_contents_lines:
  assumes "readlines contents = line # rest" and "startswith line ''// generated''"
  shows "check_stub_contents fname contents =
           (if 5 \<le> length rest \<or> \<not> re_match generated_stub_re (concat rest)
            then Inl (modified_error fname) else Inr True)"
proof (cases "5 \<le> length rest")
  case True
  with assms show ?thesis
    by (simp add: check_stub_contents_def line_threshold_def)
next
  case False
  then have "take 5 rest = rest" by simp
  with assms False show ?thesis
    by (simp add: check_stub_contents_def line_threshold_def)
qed

text \<open>
  Claim C2, as the code has it. The guard tests the marker on the first line only. All
  the text after the first line, whether or not its lines carry the marker, goes to the
  structural check: the file is pristine exactly when that text has fewer than five lines
  and starts with the stub pattern. A file whose second line carries the marker again
  raises the error.
\<close>

theorem stub_guard_first_line_only:
  assumes "nl \<notin> set first" and "startswith first ''// generated''"
  shows "check_stub_contents fname (first @ nl # body) =
           (if length (readlines body) < 5 \<and> stub_pattern body
            then Inr True else Inl (modified_error fname))
         \<and> (startswith body ''// generated'' \<longrightarrow>
              check_stub_contents fname (first @ nl # body) = Inl (modified_error fname))"
proof -
  have lines: "readlines (first @ nl # body) = (first @ [nl]) # readlines body"
    using assms(1) by (rule readlines_first_line)
  have start: "startswith (first @ [nl]) ''// generated''"
    using assms(2) by (rule startswith_append)
  have "check_stub_contents fname (first @ nl # body) =
           (if 5 \<le> length (readlines body) \<or> \<not> stub_pattern body
            then Inl (modified_error fname) else Inr True)"
    using check_stub_contents_lines [OF lines start, of fname]
    by (simp add: concat_readlines generated_stub_re_pattern)
  then show ?thesis
    by (auto simp: marker_not_stub_pattern)
qed

theorem stub_guard_first_line_only_witness:
  "nl \<notin> set ''// generated by codegen''
   \<and> startswith ''// generated by codegen'' ''// generated''
   \<and> check_stub_contents ''A.qll''
        (''// generated by codegen'' @ nl #
           (''private import codeql.swift.generated.A'' @ [nl, nl]
            @ ''class A extends ABase { }'' @ [nl])) = Inr True"
proof -
  have h1: "nl \<notin> set ''// generated by codegen''" by (simp add: nl_def)
  have h2: "startswith ''// generated by codegen'' ''// generated''" by (simp add: startswith_def)
  have "length (readlines (''private import codeql.swift.generated.A'' @ [nl, nl]
            @ ''class A extends ABase { }'' @ [nl])) < 5" by (simp add: nl_def)
  moreover have "stub_pattern (''private import codeql.swift.generated.A'' @ [nl, nl]
            @ ''class A extends ABase { }'' @ [nl])"
    unfolding generated_stub_re_pattern [symmetric] by (simp add: stub_eval)
  ultimately show ?thesis
    using h1 h2 stub_guard_first_line_only [OF h1 h2, of "''A.qll''"
      "''private import codeql.swift.generated.A'' @ [nl, nl]
            @ ''class A extends ABase { }'' @ [nl]"]
    by simp
qed

text \<open>
  The claim as the specification states it fails: the pristine stub is accepted with one
  marker line, and rejected when a second marker line precedes the same body.
\<close>

theorem stub_guard_preamble_counterexample:
  "check_stub_contents ''A.qll''
     (''// generated by codegen'' @ [nl]
      @ ''private import codeql.swift.generated.A'' @ [nl, nl]
      @ ''class A extends ABase { }'' @ [nl]) = Inr True
   \<and> check_stub_contents ''A.qll''
     (''// generated by codegen'' @ [nl] @ ''// generated by codegen'' @ [nl]
      @ ''private import codeql.swift.generated.A'' @ [nl, nl]
      @ ''class A extends ABase { }'' @ [nl]) = Inl (modified_error ''A.qll'')"
  by (simp add: stub_eval)

text \<open>
  Claim C3, as the code has it. For a file whose first line carries the marker, the guard
  raises the error if and only if at least five lines follow the first one, or the lines
  that follow do not start with the stub pattern; otherwise the file is pristine. The
  pattern the code matches is the one the specification describes.
\<close>

theorem stub_guard_raises_iff:
  assumes "readlines contents = line # rest" and "startswith line ''// generated''"
  shows "check_stub_contents fname contents =
           (if 5 \<le> length rest \<or> \<not> stub_pattern (concat rest)
            then Inl (modified_error fname) else Inr True)"
  using check_stub_contents_lines [OF assms, of fname]
  by (simp add: generated_stub_re_pattern)

theorem stub_guard_raises_iff_witness:
  "readlines (''// generated by codegen'' @ [nl] @ ''private import x'' @ [nl, nl]
              @ ''class A extends B { }'' @ [nl])
     = (''// generated by codegen'' @ [nl])
       # [''private import x'' @ [nl], [nl], ''class A extends B { }'' @ [nl]]
   \<and> startswith (''// generated by codegen'' @ [nl]) ''// generated''
   \<and> check_stub_contents ''A.qll''
        (''// generated by codegen'' @ [nl] @ ''private import x'' @ [nl, nl]
         @ ''class A extends B { }'' @ [nl]) = Inr True"
proof -
  have h1: "readlines (''// generated by codegen'' @ [nl] @ ''private import x'' @ [nl, nl]
              @ ''class A extends B { }'' @ [nl])
     = (''// generated by codegen'' @ [nl])
       # [''private import x'' @ [nl], [nl], ''class A extends B { }'' @ [nl]]"
    by (simp add: nl_def)
  have h2: "startswith (''// generated by codegen'' @ [nl]) ''// generated''"
    by (simp add: startswith_def)
  have h3: "stub_pattern (concat [''private import x'' @ [nl], [nl], ''class A extends B { }'' @ [nl]])"
    unfolding generated_stub_re_pattern [symmetric] by (simp add: stub_eval)
  have h4: "\<not> 5 \<le> length [''private import x'' @ [nl], [nl], ''class A extends B { }'' @ [nl]]"
    by simp
  have "check_stub_contents ''A.qll''
        (''// generated by codegen'' @ [nl] @ ''private import x'' @ [nl, nl]
         @ ''class A extends B { }'' @ [nl]) = Inr True"
    using stub_guard_raises_iff [OF h1 h2, of "''A.qll''"] h3 h4 by (simp only: simp_thms if_False)
  with h1 h2 show ?thesis by (intro conjI)
qed

text \<open>
  The claim as the specification states it fails: five lines that start with the stub
  pattern, after the marker line, raise the error.
\<close>

theorem stub_guard_five_lines_counterexample:
  "length (readlines (''private import x'' @ [nl, nl] @ ''class A extends B {'' @ [nl]
                      @ ''}'' @ [nl, nl])) = 5
   \<and> re_match generated_stub_re
        (''private import x'' @ [nl, nl] @ ''class A extends B {'' @ [nl] @ ''}'' @ [nl, nl])
   \<and> check_stub_contents ''A.qll''
        (''// generated by codegen'' @ [nl]
         @ ''private import x'' @ [nl, nl] @ ''class A extends B {'' @ [nl] @ ''}'' @ [nl, nl])
      = Inl (modified_error ''A.qll'')"
  by (simp add: stub_eval)

section \<open>Properties of the relational mapper\<close>

lemmas mapper_eval = get_ql_property_def common_args_def val_def ident_def leaf_def
  name_prop_def size_prop_def items_prop_def plain_inflection_def plural_s_def lower_char_def
  upper_char_def singular_s_def

lemma count_result_slots:
  assumes "distinct (map ident xs)" and "prop \<in> set xs"
  shows "count_list (map (\<lambda>p. if ident p = ident prop then ''result'' else ''_'') xs) ''result'' = 1"
  using assms
proof (induction xs)
  case Nil
  then show ?case by simp
next
  case (Cons x xs)
  show ?case
  proof (cases "x = prop")
    case True
    with Cons.prems have "ident prop \<notin> ident ` set xs" by simp
    then have "\<forall>p \<in> set xs. ident p \<noteq> ident prop" by (metis imageI)
    then have "count_list (map (\<lambda>p. if ident p = ident prop then ''result'' else ''_'') xs) ''result'' = 0"
      by (induction xs) auto
    with True show ?thesis by simp
  next
    case False
    with Cons.prems have "prop \<in> set xs" "distinct (map ident xs)" "ident x \<noteq> ident prop"
      by auto
    with Cons.IH show ?thesis by simp
  qed
qed

lemma count_ignore_slots:
  "count_list (map (\<lambda>p. if ident p = ident prop then ''result'' else ''_'') xs) ''_''
     = length xs - count_list (map (\<lambda>p. if ident p = ident prop then ''result'' else ''_'') xs) ''result''"
proof (induction xs)
  case Nil
  then show ?case by simp
next
  case (Cons x xs)
  have "count_list (map (\<lambda>p. if ident p = ident prop then ''result'' else ''_'') xs) ''result'' \<le> length xs"
    using count_le_length [of "map (\<lambda>p. if ident p = ident prop then ''result'' else ''_'') xs" "''result''"]
    by simp
  with Cons show ?case by auto
qed

text \<open>
  Claim C1. For a single property of a class whose property objects are pairwise distinct,
  the column binding is the \<open>this\<close> slot followed by one slot for each single property
  of the class in declared order, \<open>result\<close> at the property itself and \<open>_\<close> elsewhere.
  It has exactly one \<open>result\<close> slot, one \<open>_\<close> slot for each other single property,
  and length one plus the number of single properties; the table name is the tableized
  class name.
\<close>

theorem single_property_layout:
  assumes "prop \<in> set (cls_properties cls)"
    and "prop_is_single (val prop)"
    and "distinct (map ident (cls_properties cls))"
  shows "\<exists>qp. get_ql_property infl cls prop = Some qp
           \<and> qlp_tableparams qp =
               ''this'' # map (\<lambda>p. if p = prop then ''result'' else ''_'')
                            (filter (\<lambda>p. prop_is_single (val p)) (cls_properties cls))
           \<and> count_list (qlp_tableparams qp) ''result'' = 1
           \<and> count_list (qlp_tableparams qp) ''_''
               = length (filter (\<lambda>p. prop_is_single (val p)) (cls_properties cls)) - 1
           \<and> length (qlp_tableparams qp)
               = 1 + length (filter (\<lambda>p. prop_is_single (val p)) (cls_properties cls))
           \<and> qlp_tablename qp = tableize infl (cls_name cls)"
proof -
  let ?singles = "filter (\<lambda>p. prop_is_single (val p)) (cls_properties cls)"
  let ?slots = "map (\<lambda>p. if ident p = ident prop then ''result'' else ''_'') ?singles"
  have mem: "prop \<in> set ?singles" using assms(1,2) by simp
  have dist: "distinct (map ident ?singles)" using assms(3) by (rule distinct_map_filter)
  have inj: "\<And>p. p \<in> set ?singles \<Longrightarrow> (ident p = ident prop) = (p = prop)"
    using assms(1,3) by (auto simp: distinct_map dest: inj_onD)
  have same: "?slots = map (\<lambda>p. if p = prop then ''result'' else ''_'') ?singles"
    using inj by (intro map_cong) auto
  have one: "count_list ?slots ''result'' = 1"
    using dist mem by (rule count_result_slots)
  have ign: "count_list ?slots ''_'' = length ?singles - 1"
    using count_ignore_slots [of "prop" "?singles"] one by simp
  have params: "\<exists>qp. get_ql_property infl cls prop = Some qp
      \<and> qlp_tableparams qp = ''this'' # ?slots
      \<and> qlp_tablename qp = tableize infl (cls_name cls)"
    using assms(2) by (simp add: get_ql_property_def)
  then obtain qp where qp: "get_ql_property infl cls prop = Some qp"
    "qlp_tableparams qp = ''this'' # ?slots" "qlp_tablename qp = tableize infl (cls_name cls)"
    by blast
  from qp one ign same show ?thesis by simp
qed


theorem single_property_layout_witness:
  "(0, name_prop) \<in> set (cls_properties leaf)
   \<and> prop_is_single (val (0, name_prop))
   \<and> distinct (map ident (cls_properties leaf))
   \<and> map_option qlp_tableparams (get_ql_property plain_inflection leaf (0, name_prop))
       = Some [''this'', ''result'', ''_'']
   \<and> map_option qlp_tablename (get_ql_property plain_inflection leaf (0, name_prop))
       = Some ''leafs''"
proof -
  have h1: "(0, name_prop) \<in> set (cls_properties leaf)" by (simp add: leaf_def)
  have h2: "prop_is_single (val (0, name_prop))" by (simp add: val_def name_prop_def)
  have h3: "distinct (map ident (cls_properties leaf))" by (simp add: leaf_def ident_def)
  show ?thesis
    using h1 h2 h3 single_property_layout [OF h1 h2 h3, of plain_inflection]
    by (simp add: mapper_eval)
qed

text \<open>
  Claim C8, as the code has it. The table name of a mapped property is a function of the
  class name, the property name and the multiplicity kind, and its column binding is a
  function of the class's property list, the identity of the property and its kind: the
  mapper gives the same names and layouts whenever these agree. The table names are not
  injective: every single property of a class is mapped to the table of the class, the
  tableized class name.
\<close>

theorem table_name_derivation:
  "(cls_name c = cls_name c' \<and> prop_name (val p) = prop_name (val p')
      \<and> prop_is_single (val p) = prop_is_single (val p')
      \<and> prop_is_repeated (val p) = prop_is_repeated (val p')
      \<and> prop_is_optional (val p) = prop_is_optional (val p')
      \<and> prop_is_predicate (val p) = prop_is_predicate (val p')
    \<longrightarrow> map_option qlp_tablename (get_ql_property infl c p)
        = map_option qlp_tablename (get_ql_property infl c' p'))
   \<and> (cls_properties c = cls_properties c' \<and> ident p = ident p'
      \<and> prop_is_single (val p) = prop_is_single (val p')
      \<and> prop_is_repeated (val p) = prop_is_repeated (val p')
      \<and> prop_is_optional (val p) = prop_is_optional (val p')
      \<and> prop_is_predicate (val p) = prop_is_predicate (val p')
    \<longrightarrow> map_option qlp_tableparams (get_ql_property infl c p)
        = map_option qlp_tableparams (get_ql_property infl c' p'))
   \<and> (prop_is_single (val p) \<and> prop_is_single (val q)
    \<longrightarrow> map_option qlp_tablename (get_ql_property infl c p) = Some (tableize infl (cls_name c))
      \<and> map_option qlp_tablename (get_ql_property infl c q) = Some (tableize infl (cls_name c)))"
  by (simp add: get_ql_property_def)

theorem table_name_derivation_witness:
  "prop_is_single (val (0 :: nat, name_prop)) \<and> prop_is_single (val (2 :: nat, size_prop))
   \<and> map_option qlp_tablename (get_ql_property plain_inflection leaf (0, name_prop))
       = Some (tableize plain_inflection (cls_name leaf))
   \<and> map_option qlp_tablename (get_ql_property plain_inflection leaf (2, size_prop))
       = Some (tableize plain_inflection (cls_name leaf))
   \<and> map_option qlp_tablename (get_ql_property plain_inflection leaf (1, items_prop))
       = Some ''leaf_items''"
proof -
  have h: "prop_is_single (val (0 :: nat, name_prop)) \<and> prop_is_single (val (2 :: nat, size_prop))"
    by (simp add: val_def name_prop_def size_prop_def)
  have "map_option qlp_tablename (get_ql_property plain_inflection leaf (1, items_prop))
       = Some ''leaf_items''"
    by (simp add: mapper_eval)
  with h show ?thesis
    using table_name_derivation [of leaf leaf "(0, name_prop)" "(0, name_prop)"
        plain_inflection "(2, size_prop)"]
    by simp
qed

text \<open>
  The claim as the specification states it fails: the two distinct single properties
  \<open>name\<close> and \<open>size\<close> of \<open>Leaf\<close> are both mapped to the table \<open>leafs\<close>.
\<close>

theorem table_name_collision_counterexample:
  "(0, name_prop) \<noteq> (2 :: nat, size_prop)
   \<and> map_option qlp_tablename (get_ql_property plain_inflection leaf (0, name_prop))
       = Some ''leafs''
   \<and> map_option qlp_tablename (get_ql_property plain_inflection leaf (2, size_prop))
       = Some ''leafs''"
  by (simp add: mapper_eval)

section \<open>Properties of the import resolver\<close>

lemma class_references_filter:
  "class_references ts =
     (if [] \<in> set ts then Inl IndexError else Inr (filter (\<lambda>t. isupper (hd t)) ts))"
  by (induction ts) (auto split: list.splits)

lemma get_classes_used_by_sorted:
  assumes "[] \<notin> set (get_types_used_by cls)"
  shows "get_classes_used_by cls =
           Inr (sort (remdups (filter (\<lambda>t. isupper (hd t)) (get_types_used_by cls))))"
  using assms by (simp add: get_classes_used_by_def class_references_filter)

lemma get_classes_used_by_empty_name:
  "[] \<in> set (get_types_used_by cls) \<Longrightarrow> get_classes_used_by cls = Inl IndexError"
  by (simp add: get_classes_used_by_def class_references_filter)

text \<open>
  Claim C7. For a mapped class whose used type names are not empty, the class references
  are the used types (the base names and the declared types of the properties) that start
  with an uppercase letter, without duplicates and sorted; there is only one such list, so
  two runs give the same one. An empty type name makes \<open>t[0]\<close> raise \<open>IndexError\<close>
  (lemma \<open>get_classes_used_by_empty_name\<close>).
\<close>

theorem classes_used_by_sorted_set:
  assumes "[] \<notin> set (qlc_bases cls)"
    and "[] \<notin> (\<lambda>p. qlp_type (val p)) ` set (qlc_properties cls)"
  shows "\<exists>r. get_classes_used_by cls = Inr r
           \<and> set r = {t \<in> set (qlc_bases cls) \<union> (\<lambda>p. qlp_type (val p)) ` set (qlc_properties cls).
                        isupper (hd t)}
           \<and> distinct r \<and> sorted r
           \<and> (\<forall>r'. set r' = set r \<and> distinct r' \<and> sorted r' \<longrightarrow> r' = r)"
proof -
  let ?ts = "get_types_used_by cls"
  let ?r = "sort (remdups (filter (\<lambda>t. isupper (hd t)) ?ts))"
  have set_ts: "set ?ts = set (qlc_bases cls) \<union> (\<lambda>p. qlp_type (val p)) ` set (qlc_properties cls)"
    by (simp add: get_types_used_by_def)
  with assms have "[] \<notin> set ?ts" by simp
  then have res: "get_classes_used_by cls = Inr ?r" by (rule get_classes_used_by_sorted)
  have s: "set ?r = {t \<in> set ?ts. isupper (hd t)}" by auto
  have d: "distinct ?r" by simp
  have o: "sorted ?r" by simp
  have u: "\<forall>r'. set r' = set ?r \<and> distinct r' \<and> sorted r' \<longrightarrow> r' = ?r"
    using d o by (metis sorted_distinct_set_unique)
  from res s d o u show ?thesis unfolding set_ts by blast
qed

theorem classes_used_by_sorted_set_witness:
  "[] \<notin> set (qlc_bases leaf_ql)
   \<and> [] \<notin> (\<lambda>p. qlp_type (val p)) ` set (qlc_properties leaf_ql)
   \<and> get_classes_used_by leaf_ql = Inr [''Base'', ''Item'']"
proof -
  have h1: "[] \<notin> set (qlc_bases leaf_ql)"
    by (simp add: leaf_ql_def ql_class_of_def)
  have h2: "[] \<notin> (\<lambda>p. qlp_type (val p)) ` set (qlc_properties leaf_ql)"
    by (simp add: leaf_ql_def ql_class_of_def ql_property_of_def val_def)
  have h3: "get_classes_used_by leaf_ql = Inr [''Base'', ''Item'']"
    by code_simp
  from classes_used_by_sorted_set [OF h1 h2] h1 h2 h3 show ?thesis by simp
qed

section \<open>Properties of the hierarchy analyzer\<close>

subsection \<open>The example hierarchies are valid\<close>


lemmas collapse_eval = collapse_lookup_def collapse_rank_def rank_of_def collapsed_a_def
  uncollapsed_m_def derived_d_def derived_e_def ql_class_of_def


lemma collapse_valid: "valid_hierarchy collapse_rank collapse_lookup"
  unfolding valid_hierarchy_def bases_ranked_def
  by (auto simp: collapse_eval split: if_splits)



subsection \<open>The collapse predicates\<close>

lemma spec_is_under_collapsed_iff:
  "spec_is_under_collapsed lookup c =
     (\<not> qltest_uncollapse_hierarchy c
      \<and> (\<exists>b \<in> set (qlc_bases c). \<exists>base. lookup b = Some base \<and> spec_is_collapsed lookup base))"
  unfolding spec_is_collapsed_def
  by (subst spec_is_under_collapsed.simps) blast

lemma any_base_collapsed_correct:
  assumes "\<forall>b \<in> set bs. \<exists>base. lookup b = Some base
             \<and> is_in_qltest_collapsed_hierachy m base lookup = Inr (spec_is_collapsed lookup base)"
  shows "any_base_collapsed m bs lookup =
           Inr (\<exists>b \<in> set bs. \<exists>base. lookup b = Some base \<and> spec_is_collapsed lookup base)"
  using assms
proof (induction bs)
  case Nil
  then show ?case by simp
next
  case (Cons b bs)
  then obtain base where base: "lookup b = Some base"
    "is_in_qltest_collapsed_hierachy m base lookup = Inr (spec_is_collapsed lookup base)"
    by auto
  from Cons have rest: "any_base_collapsed m bs lookup =
      Inr (\<exists>b \<in> set bs. \<exists>base. lookup b = Some base \<and> spec_is_collapsed lookup base)"
    by simp
  show ?case
  proof (cases "spec_is_collapsed lookup base")
    case True
    with base show ?thesis by auto
  next
    case False
    with base rest show ?thesis by auto
  qed
qed

lemma valid_hierarchy_bases:
  assumes "valid_hierarchy rank lookup" and "c \<in> ran lookup" and "b \<in> set (qlc_bases c)"
  obtains base where "lookup b = Some base" and "rank base < rank c" and "base \<in> ran lookup"
  using assms unfolding valid_hierarchy_def bases_ranked_def ran_def by blast

lemma collapsed_correct:
  assumes valid: "valid_hierarchy rank lookup"
  shows "c \<in> ran lookup \<Longrightarrow>
         (2 * rank c + 1 \<le> n \<longrightarrow>
            is_under_qltest_collapsed_hierachy n c lookup = Inr (spec_is_under_collapsed lookup c))
         \<and> (2 * rank c + 2 \<le> n \<longrightarrow>
            is_in_qltest_collapsed_hierachy n c lookup = Inr (spec_is_collapsed lookup c))"
proof (induction "rank c" arbitrary: c n rule: less_induct)
  case less
  have under: "is_under_qltest_collapsed_hierachy k c lookup = Inr (spec_is_under_collapsed lookup c)"
    if k: "2 * rank c + 1 \<le> k" for k
  proof -
    from k obtain m where m: "k = Suc m" "2 * rank c \<le> m" by (cases k) auto
    show ?thesis
    proof (cases "qltest_uncollapse_hierarchy c")
      case True
      then show ?thesis using m by (simp add: spec_is_under_collapsed_iff)
    next
      case False
      have "\<forall>b \<in> set (qlc_bases c). \<exists>base. lookup b = Some base
             \<and> is_in_qltest_collapsed_hierachy m base lookup = Inr (spec_is_collapsed lookup base)"
      proof
        fix b assume "b \<in> set (qlc_bases c)"
        with valid less.prems obtain base where base: "lookup b = Some base" "rank base < rank c"
          "base \<in> ran lookup" by (rule valid_hierarchy_bases)
        with m have "2 * rank base + 2 \<le> m" by simp
        with less.hyps [OF base(2) base(3)] base(1)
        show "\<exists>base. lookup b = Some base
             \<and> is_in_qltest_collapsed_hierachy m base lookup = Inr (spec_is_collapsed lookup base)"
          by blast
      qed
      then have "any_base_collapsed m (qlc_bases c) lookup =
           Inr (\<exists>b \<in> set (qlc_bases c). \<exists>base. lookup b = Some base \<and> spec_is_collapsed lookup base)"
        by (rule any_base_collapsed_correct)
      with False m show ?thesis by (simp add: spec_is_under_collapsed_iff)
    qed
  qed
  have "is_in_qltest_collapsed_hierachy k c lookup = Inr (spec_is_collapsed lookup c)"
    if k: "2 * rank c + 2 \<le> k" for k
  proof -
    from k obtain m where m: "k = Suc m" "2 * rank c + 1 \<le> m" by (cases k) auto
    with under [of m] show ?thesis by (simp add: spec_is_collapsed_def)
  qed
  with under show ?case by blast
qed



lemma derives_without_override_rank:
  assumes "valid_hierarchy rank lookup"
  shows "derives_without_override lookup d b \<Longrightarrow> d \<in> ran lookup \<Longrightarrow>
         b \<in> ran lookup \<and> rank b < rank d"
proof (induction rule: derives_without_override.induct)
  case (direct d b base)
  with assms show ?case by (metis valid_hierarchy_bases option.inject)
next
  case (step d b mid base)
  from assms step.prems step.hyps(2) obtain m' where
    "lookup b = Some m'" "rank m' < rank d" "m' \<in> ran lookup"
    by (rule valid_hierarchy_bases)
  with step show ?case by auto
qed

lemma derives_without_override_collapsed:
  "derives_without_override lookup d b \<Longrightarrow> spec_is_collapsed lookup b \<Longrightarrow>
   spec_is_under_collapsed lookup d"
proof (induction rule: derives_without_override.induct)
  case (direct d b base)
  then show ?case by (auto simp: spec_is_under_collapsed_iff)
next
  case (step d b mid base)
  then have "spec_is_collapsed lookup mid" by (simp add: spec_is_collapsed_def)
  with step show ?case by (auto simp: spec_is_under_collapsed_iff)
qed

text \<open>
  Claim C5, as the code has it. On an acyclic inheritance graph, if \<open>b\<close> is collapsed and
  \<open>d\<close> derives from \<open>b\<close>, directly or through classes none of which carries the uncollapse
  override, and \<open>d\<close> carries none either, then \<open>d\<close> is under a collapsed hierarchy. A
  class that carries the uncollapse override is not under a collapsed hierarchy,
  whatever its ancestors are.
\<close>

theorem collapsing_monotone:
  assumes "valid_hierarchy rank lookup" and "d \<in> ran lookup" and "2 * rank d + 1 \<le> n"
  shows "(derives_without_override lookup d b
            \<and> is_in_qltest_collapsed_hierachy n b lookup = Inr True
          \<longrightarrow> is_under_qltest_collapsed_hierachy n d lookup = Inr True)
         \<and> (qltest_uncollapse_hierarchy d
          \<longrightarrow> is_under_qltest_collapsed_hierachy n d lookup = Inr False)"
proof -
  have under: "is_under_qltest_collapsed_hierachy n d lookup
                 = Inr (spec_is_under_collapsed lookup d)"
    using collapsed_correct [OF assms(1,2), of n] assms(3) by simp
  have "is_under_qltest_collapsed_hierachy n d lookup = Inr True"
    if der: "derives_without_override lookup d b"
      and b: "is_in_qltest_collapsed_hierachy n b lookup = Inr True"
  proof -
    from derives_without_override_rank [OF assms(1) der assms(2)]
    have "b \<in> ran lookup" "rank b < rank d" by auto
    with assms(3) collapsed_correct [OF assms(1), of b n]
    have "is_in_qltest_collapsed_hierachy n b lookup = Inr (spec_is_collapsed lookup b)"
      by simp
    with b have "spec_is_collapsed lookup b" by simp
    with der have "spec_is_under_collapsed lookup d"
      by (rule derives_without_override_collapsed)
    with under show ?thesis by simp
  qed
  moreover have "is_under_qltest_collapsed_hierachy n d lookup = Inr False"
    if "qltest_uncollapse_hierarchy d"
    using under that by (simp add: spec_is_under_collapsed_iff)
  ultimately show ?thesis by blast
qed

theorem collapsing_monotone_witness:
  "valid_hierarchy collapse_rank collapse_lookup
   \<and> derived_e \<in> ran collapse_lookup \<and> 2 * collapse_rank derived_e + 1 \<le> 6
   \<and> uncollapsed_m \<in> ran collapse_lookup \<and> 2 * collapse_rank uncollapsed_m + 1 \<le> 6
   \<and> derives_without_override collapse_lookup derived_e collapsed_a
   \<and> is_in_qltest_collapsed_hierachy 6 collapsed_a collapse_lookup = Inr True
   \<and> is_under_qltest_collapsed_hierachy 6 derived_e collapse_lookup = Inr True
   \<and> qltest_uncollapse_hierarchy uncollapsed_m
   \<and> is_under_qltest_collapsed_hierachy 6 uncollapsed_m collapse_lookup = Inr False"
proof -
  have e1: "derived_e \<in> ran collapse_lookup"
    by (rule ranI [of _ "''E''"]) (simp add: collapse_lookup_def)
  have e2: "2 * collapse_rank derived_e + 1 \<le> 6" by (simp add: collapse_eval)
  have m1: "uncollapsed_m \<in> ran collapse_lookup"
    by (rule ranI [of _ "''M''"]) (simp add: collapse_lookup_def)
  have m2: "2 * collapse_rank uncollapsed_m + 1 \<le> 6" by (simp add: collapse_eval)
  have der: "derives_without_override collapse_lookup derived_e collapsed_a"
    by (rule derives_without_override.direct [of _ "''A''"]) (simp_all add: collapse_eval)
  have a: "is_in_qltest_collapsed_hierachy 6 collapsed_a collapse_lookup = Inr True"
    by code_simp
  have unc: "qltest_uncollapse_hierarchy uncollapsed_m" by (simp add: collapse_eval)
  have e: "is_under_qltest_collapsed_hierachy 6 derived_e collapse_lookup = Inr True"
    using collapsing_monotone [OF collapse_valid e1 e2, of collapsed_a] der a by blast
  have m: "is_under_qltest_collapsed_hierachy 6 uncollapsed_m collapse_lookup = Inr False"
    using collapsing_monotone [OF collapse_valid m1 m2, of collapsed_a] unc by blast
  from collapse_valid e1 e2 m1 m2 der a e unc m show ?thesis by (intro conjI)
qed

text \<open>
  The claim as the specification states it fails: \<open>A\<close> is collapsed, \<open>D\<close> derives from
  \<open>A\<close> through \<open>M\<close> and carries no uncollapse override, and \<open>D\<close> is not under a
  collapsed hierarchy, because \<open>M\<close> carries the override.
\<close>

theorem collapse_override_counterexample:
  "is_in_qltest_collapsed_hierachy 6 collapsed_a collapse_lookup = Inr True
   \<and> qlc_bases derived_d = [''M''] \<and> collapse_lookup ''M'' = Some uncollapsed_m
   \<and> qlc_bases uncollapsed_m = [''A''] \<and> collapse_lookup ''A'' = Some collapsed_a
   \<and> \<not> qltest_uncollapse_hierarchy derived_d
   \<and> is_under_qltest_collapsed_hierachy 6 derived_d collapse_lookup = Inr False"
proof -
  have "is_in_qltest_collapsed_hierachy 6 collapsed_a collapse_lookup = Inr True" by code_simp
  moreover have "is_under_qltest_collapsed_hierachy 6 derived_d collapse_lookup = Inr False"
    by code_simp
  ultimately show ?thesis by (simp add: collapse_eval)
qed

subsection \<open>Flattening the properties to be tested\<close>








lemma deduplicate_subset:
  "set (deduplicate seen items) \<subseteq> set items"
  by (induction seen items rule: deduplicate.induct) auto





section \<open>Properties of the generation driver\<close>

subsection \<open>Broken references\<close>

lemma resolve_imports_missing:
  assumes "t \<in> set ts" and "table t = None"
  shows "\<exists>t'. resolve_imports table ts = Inl (KeyError t') \<and> t' \<in> set ts \<and> table t' = None"
  using assms
proof (induction ts)
  case Nil
  then show ?case by simp
next
  case (Cons x xs)
  show ?case
  proof (cases "table x")
    case None
    then show ?thesis by auto
  next
    case (Some i)
    with Cons.prems have "t \<in> set xs" by auto
    with Cons.IH Cons.prems(2) obtain t' where
      "resolve_imports table xs = Inl (KeyError t')" "t' \<in> set xs" "table t' = None"
      by blast
    with Some show ?thesis by simp
  qed
qed

lemma render_classes_append:
  "render_classes tmpl opt table (cs @ cs') w =
     (case render_classes tmpl opt table cs w of
        Inl ew \<Rightarrow> Inl ew
      | Inr w' \<Rightarrow> render_classes tmpl opt table cs' w')"
  by (induction cs arbitrary: w) (auto split: sum.splits)

text \<open>
  Claim C9. When a class reference of a class has no entry in the import table, the step
  of the driver for this class raises before anything is rendered for the class: the file
  system and the renderer are as they were. The error is the \<open>KeyError\<close> of a missing
  reference (a \<open>ValueError\<close> comes first when the path of the class has an empty name),
  and the run over the list of classes stops there, with what the earlier classes had
  rendered.
\<close>

theorem broken_reference_aborts:
  assumes "get_classes_used_by c = Inr ts" and "t \<in> set ts" and "table t = None"
  shows "(\<exists>e. render_class tmpl opt table c w = Inl (e, w)
            \<and> (e = ValueError \<or> (\<exists>t'. e = KeyError t' \<and> t' \<in> set ts \<and> table t' = None)))
         \<and> (path_name (qlc_path c) \<noteq> [] \<longrightarrow>
              (\<exists>t'. render_class tmpl opt table c w = Inl (KeyError t', w)
                    \<and> t' \<in> set ts \<and> table t' = None))
         \<and> (\<forall>cs cs' w0. render_classes tmpl opt table cs w0 = Inr w \<longrightarrow>
              (\<exists>e. render_classes tmpl opt table (cs @ c # cs') w0 = Inl (e, w)))"
proof -
  from resolve_imports_missing [of t ts table, OF assms(2,3)] obtain t' where
    t': "resolve_imports table ts = Inl (KeyError t')" "t' \<in> set ts" "table t' = None"
    by blast
  have key: "render_class tmpl opt table c w = Inl (KeyError t', w)"
    if "path_name (qlc_path c) \<noteq> []"
    using that assms(1) t'(1) by (simp add: render_class_def with_suffix_def)
  have val: "render_class tmpl opt table c w = Inl (ValueError, w)"
    if "path_name (qlc_path c) = []"
    using that by (simp add: render_class_def with_suffix_def)
  from key val t'(2,3) have one: "\<exists>e. render_class tmpl opt table c w = Inl (e, w)
            \<and> (e = ValueError \<or> (\<exists>t'. e = KeyError t' \<and> t' \<in> set ts \<and> table t' = None))"
    by (cases "path_name (qlc_path c) = []") auto
  then obtain e where e: "render_class tmpl opt table c w = Inl (e, w)" by blast
  have loop: "\<exists>e. render_classes tmpl opt table (cs @ c # cs') w0 = Inl (e, w)"
    if "render_classes tmpl opt table cs w0 = Inr w" for cs cs' w0
    using that e by (simp add: render_classes_append)
  from one key t'(2,3) loop show ?thesis by blast
qed

theorem broken_reference_aborts_witness:
  "get_classes_used_by leaf_ql = Inr [''Base'', ''Item'']
   \<and> ''Item'' \<in> set [''Base'', ''Item''] \<and> base_only_imports ''Item'' = None
   \<and> path_name (qlc_path leaf_ql) \<noteq> []
   \<and> render_class blank_template example_opts base_only_imports leaf_ql empty_world
       = Inl (KeyError ''Item'', empty_world)"
proof -
  have h1: "get_classes_used_by leaf_ql = Inr [''Base'', ''Item'']" by code_simp
  have h2: "''Item'' \<in> set [''Base'', ''Item'']" by simp
  have h3: "base_only_imports ''Item'' = None" by (simp add: base_only_imports_def)
  have h4: "path_name (qlc_path leaf_ql) \<noteq> []"
    by (simp add: leaf_ql_def ql_class_of_def path_name_def)
  have base: "base_only_imports ''Base'' \<noteq> None" by (simp add: base_only_imports_def)
  from broken_reference_aborts [of leaf_ql "[''Base'', ''Item'']" "''Item''" base_only_imports
      blank_template example_opts empty_world, OF h1 h2 h3] h4
  obtain t' where t': "render_class blank_template example_opts base_only_imports leaf_ql empty_world
       = Inl (KeyError t', empty_world)" "t' \<in> set [''Base'', ''Item'']"
    "base_only_imports t' = None" by blast
  with base have "t' = ''Item''" by auto
  with t' h1 h2 h3 h4 show ?thesis by simp
qed

subsection \<open>Empty stub files\<close>

lemma check_stub_contents_empty: "check_stub_contents fname [] = Inr False"
  by (simp add: check_stub_contents_def)

lemma is_generated_stub_empty:
  "m q = Some [] \<Longrightarrow> is_generated_stub m q = Inr False"
  by (simp add: is_generated_stub_def check_stub_contents_empty)

lemma generated_stubs_exclude_empty:
  "map_of fs q = Some [] \<Longrightarrow> generated_stubs fs qs = Inr stubs \<Longrightarrow> q \<notin> set stubs"
proof (induction qs arbitrary: stubs)
  case Nil
  then show ?case by simp
next
  case (Cons x xs)
  from Cons.prems(2) obtain b r where r: "is_generated_stub (map_of fs) x = Inr b"
    "generated_stubs fs xs = Inr r" "stubs = (if b then x # r else r)"
    by (auto split: sum.splits)
  from Cons.IH [OF Cons.prems(1) r(2)] have rest: "q \<notin> set r" .
  show ?case
  proof (cases b)
    case True
    with r(1) is_generated_stub_empty [of "map_of fs" q] Cons.prems(1) have "x \<noteq> q" by auto
    with rest r(3) True show ?thesis by simp
  next
    case False
    with rest r(3) show ?thesis by simp
  qed
qed

lemma qll_not_ql:
  assumes "endswith n ''.qll''"
  shows "\<not> endswith n ''.ql''" and "n \<noteq> ''MISSING_SOURCE.txt''"
proof -
  from assms have d: "drop (length n - length ''.qll'') n = ''.qll''"
    unfolding endswith_def by blast
  have "take (length n - length ''.qll'') n @ drop (length n - length ''.qll'') n = n"
    by (rule append_take_drop_id)
  with d have n: "n = take (length n - length ''.qll'') n @ ''.qll''"
    by (simp only:)
  have "\<not> endswith (pre @ ''.qll'') ''.ql''" for pre :: string
    by (simp add: endswith_def)
  with n show "\<not> endswith n ''.ql''" by metis
  from assms show "n \<noteq> ''MISSING_SOURCE.txt''" by (auto simp: endswith_def)
qed

lemma existing_excludes_empty_stub:
  assumes "map_of fs q = Some []" and "existing opt fs = Inr E"
    and "endswith (path_name q) ''.qll''" and "\<not> is_below (ql_output opt) q"
  shows "q \<notin> E"
proof -
  from assms(2) obtain stubs where stubs:
    "generated_stubs fs (rglob (ql_stub_output opt) (\<lambda>n. endswith n ''.qll'') fs) = Inr stubs"
    "E = set (rglob (ql_output opt) (\<lambda>n. endswith n ''.qll'') fs) \<union> set stubs
         \<union> set (rglob (ql_test_output opt) (\<lambda>n. endswith n ''.ql'') fs)
         \<union> set (rglob (ql_test_output opt) (\<lambda>n. n = ''MISSING_SOURCE.txt'') fs)"
    by (auto simp: existing_def split: sum.splits)
  have "q \<notin> set stubs" using assms(1) stubs(1) by (rule generated_stubs_exclude_empty)
  moreover have "q \<notin> set (rglob (ql_output opt) (\<lambda>n. endswith n ''.qll'') fs)"
    using assms(4) by (simp add: rglob_def)
  moreover have "q \<notin> set (rglob (ql_test_output opt) (\<lambda>n. endswith n ''.ql'') fs)"
    using qll_not_ql(1) [OF assms(3)] by (simp add: rglob_def)
  moreover have "q \<notin> set (rglob (ql_test_output opt) (\<lambda>n. n = ''MISSING_SOURCE.txt'') fs)"
    using qll_not_ql(2) [OF assms(3)] by (simp add: rglob_def)
  ultimately show ?thesis using stubs(2) by simp
qed

lemma untouched_refl: "untouched q w w"
  by (simp add: untouched_def)

lemma untouched_trans: "untouched q w w' \<Longrightarrow> untouched q w' w'' \<Longrightarrow> untouched q w w''"
  by (simp add: untouched_def)

lemma render_untouched: "output \<noteq> q \<Longrightarrow> untouched q w (render tmpl data output w)"
  by (simp add: untouched_def render_def update_conv')

lemma render_stub_untouched:
  "stub_file \<noteq> q \<Longrightarrow> untouched q w (world_after (render_stub tmpl opt c qll stub_file w))"
  by (auto simp: render_stub_def world_after_def untouched_refl render_untouched
        split: sum.splits)

lemma with_suffix_below:
  "with_suffix sfx p = Inr rel \<Longrightarrow> is_below dir (dir @ rel)"
  by (auto simp: with_suffix_def is_below_def split: if_splits)

lemma render_class_untouched:
  assumes "map_of (files w) q = Some []" and "\<not> is_below (ql_output opt) q"
  shows "untouched q w (world_after (render_class tmpl opt table c w))"
proof (cases "with_suffix ''.qll'' (qlc_path c)")
  case (Inl e)
  then show ?thesis by (simp add: render_class_def world_after_def untouched_refl)
next
  case (Inr rel)
  then have "is_below (ql_output opt) (ql_output opt @ rel)" by (rule with_suffix_below)
  with assms(2) have qll: "ql_output opt @ rel \<noteq> q" by auto
  show ?thesis
  proof (cases "get_classes_used_by c")
    case (Inl e)
    with Inr show ?thesis by (simp add: render_class_def world_after_def untouched_refl)
  next
    case ts: (Inr ts)
    show ?thesis
    proof (cases "resolve_imports table ts")
      case (Inl e)
      with Inr ts show ?thesis by (simp add: render_class_def world_after_def untouched_refl)
    next
      case imps: (Inr imps)
      let ?c = "c\<lparr>qlc_imports := imps\<rparr>"
      let ?w1 = "render tmpl (ClassItem ?c) (ql_output opt @ rel) w"
      let ?stub = "ql_stub_output opt @ rel"
      have w1: "untouched q w ?w1" using qll by (rule render_untouched)
      then have q1: "map_of (files ?w1) q = Some []" using assms(1) by (simp add: untouched_def)
      have "untouched q ?w1 (world_after
              (if \<not> is_file (files ?w1) ?stub then render_stub tmpl opt ?c (ql_output opt @ rel) ?stub ?w1
               else (case is_generated_stub (map_of (files ?w1)) ?stub of
                       Inl e \<Rightarrow> Inl (e, ?w1)
                     | Inr True \<Rightarrow> render_stub tmpl opt ?c (ql_output opt @ rel) ?stub ?w1
                     | Inr False \<Rightarrow> Inr ?w1)))"
      proof (cases "?stub = q")
        case True
        with q1 have "is_file (files ?w1) ?stub" by (simp add: is_file_def)
        moreover from True q1 have "is_generated_stub (map_of (files ?w1)) ?stub = Inr False"
          by (simp add: is_generated_stub_empty)
        ultimately show ?thesis by (simp add: world_after_def untouched_refl)
      next
        case False
        then have "untouched q ?w1 (world_after (render_stub tmpl opt ?c (ql_output opt @ rel) ?stub ?w1))"
          by (rule render_stub_untouched)
        then show ?thesis
          by (auto simp: world_after_def untouched_refl split: sum.splits bool.splits)
      qed
      with w1 have "untouched q w (world_after
              (if \<not> is_file (files ?w1) ?stub then render_stub tmpl opt ?c (ql_output opt @ rel) ?stub ?w1
               else (case is_generated_stub (map_of (files ?w1)) ?stub of
                       Inl e \<Rightarrow> Inl (e, ?w1)
                     | Inr True \<Rightarrow> render_stub tmpl opt ?c (ql_output opt @ rel) ?stub ?w1
                     | Inr False \<Rightarrow> Inr ?w1)))"
        by (rule untouched_trans)
      with Inr ts imps show ?thesis by (simp add: render_class_def Let_def)
    qed
  qed
qed

lemma render_classes_untouched:
  assumes "\<not> is_below (ql_output opt) q"
  shows "map_of (files w) q = Some [] \<Longrightarrow>
         untouched q w (world_after (render_classes tmpl opt table cs w))"
proof (induction cs arbitrary: w)
  case Nil
  then show ?case by (simp add: world_after_def untouched_refl)
next
  case (Cons c cs)
  have step: "untouched q w (world_after (render_class tmpl opt table c w))"
    using Cons.prems assms by (rule render_class_untouched)
  show ?case
  proof (cases "render_class tmpl opt table c w")
    case (Inl ew)
    with step show ?thesis by (simp add: world_after_def)
  next
    case (Inr w')
    with step have w': "untouched q w w'" by (simp add: world_after_def)
    with Cons.prems have "map_of (files w') q = Some []" by (simp add: untouched_def)
    then have "untouched q w' (world_after (render_classes tmpl opt table cs w'))"
      by (rule Cons.IH)
    with w' have "untouched q w (world_after (render_classes tmpl opt table cs w'))"
      by (rule untouched_trans)
    with Inr show ?thesis by simp
  qed
qed

text \<open>
  Claim C10. An existing stub file without any line is classified as user-owned: the guard
  returns false and raises nothing. A stub file of this kind that does not lie in the
  directory of the definitions is not among the existing outputs of the run, and the loop
  over the classes neither changes it nor asks the renderer to write it.
\<close>

theorem empty_stub_is_user_owned:
  assumes "map_of (files w) q = Some []"
  shows "is_generated_stub (map_of (files w)) q = Inr False
         \<and> (\<forall>E. existing opt (files w) = Inr E \<and> endswith (path_name q) ''.qll''
                 \<and> \<not> is_below (ql_output opt) q \<longrightarrow> q \<notin> E)
         \<and> (\<not> is_below (ql_output opt) q \<longrightarrow>
              map_of (files (world_after (render_classes tmpl opt table cs w))) q = Some []
              \<and> filter (\<lambda>(d, p). p = q) (rendered (world_after (render_classes tmpl opt table cs w)))
                  = filter (\<lambda>(d, p). p = q) (rendered w))"
proof -
  have "is_generated_stub (map_of (files w)) q = Inr False"
    using assms by (rule is_generated_stub_empty)
  moreover have "q \<notin> E" if "existing opt (files w) = Inr E" "endswith (path_name q) ''.qll''"
      "\<not> is_below (ql_output opt) q" for E
    using assms that by (rule existing_excludes_empty_stub)
  moreover have "map_of (files (world_after (render_classes tmpl opt table cs w))) q = Some []
              \<and> filter (\<lambda>(d, p). p = q) (rendered (world_after (render_classes tmpl opt table cs w)))
                  = filter (\<lambda>(d, p). p = q) (rendered w)"
    if "\<not> is_below (ql_output opt) q"
    using render_classes_untouched [OF that assms, of tmpl "table" cs] assms
    by (simp add: untouched_def)
  ultimately show ?thesis by blast
qed

theorem empty_stub_is_user_owned_witness:
  "map_of (files stub_world) leaf_stub = Some []
   \<and> endswith (path_name leaf_stub) ''.qll''
   \<and> \<not> is_below (ql_output example_opts) leaf_stub
   \<and> is_generated_stub (map_of (files stub_world)) leaf_stub = Inr False
   \<and> existing example_opts (files stub_world) = Inr {}
   \<and> map snd (rendered (world_after
         (render_classes blank_template example_opts all_imports [leaf_ql] stub_world)))
       = [[''swift'', ''ql'', ''lib'', ''codeql'', ''swift'', ''generated'', ''Leaf.qll'']]
   \<and> map_of (files (world_after
         (render_classes blank_template example_opts all_imports [leaf_ql] stub_world)))
         leaf_stub = Some []"
proof -
  have h: "map_of (files stub_world) leaf_stub = Some []"
    by (simp add: stub_world_def)
  have e: "endswith (path_name leaf_stub) ''.qll''"
    by (simp add: endswith_def path_name_def leaf_stub_def)
  have b: "\<not> is_below (ql_output example_opts) leaf_stub"
    by (simp add: is_below_def example_opts_def leaf_stub_def)
  have ex: "existing example_opts (files stub_world) = Inr {}"
    by code_simp
  have r: "map snd (rendered (world_after
         (render_classes blank_template example_opts all_imports [leaf_ql] stub_world)))
       = [[''swift'', ''ql'', ''lib'', ''codeql'', ''swift'', ''generated'', ''Leaf.qll'']]"
    by code_simp
  from empty_stub_is_user_owned [OF h, of example_opts blank_template all_imports "[leaf_ql]"] b
  have "is_generated_stub (map_of (files stub_world)) leaf_stub = Inr False"
    and "map_of (files (world_after
         (render_classes blank_template example_opts all_imports [leaf_ql] stub_world)))
         leaf_stub = Some []"
    by blast+
  with h e b ex r show ?thesis by (intro conjI)
qed

end
